theory Spec2Isabelle
  imports Main "HOL-Library.Word" "HOL-Library.Sublist"
begin

section \<open>The serial link of libmavconn (serial.cpp)\<close>

text \<open>
  The class \<^verbatim>\<open>MAVConnSerial\<close> is embedded as a record of its members together with
  the state of the three library objects it drives (the \<^verbatim>\<open>io_service\<close>, the serial
  device and the I/O thread) and the observations made on its collaborators (bytes
  accepted by the device, bytes handed to the parser, callback invocations, log
  lines). Every member function is a function on that record; a function that can
  throw returns the exception beside the state it leaves behind. The mutex is held
  over the whole body of each critical section, so each member function and each
  completion handler is one atomic step of the model.
\<close>

subsection \<open>Data\<close>

type_synonym byte = "8 word"

text \<open>\<^verbatim>\<open>boost::system::error_code\<close>: zero is success, \<^verbatim>\<open>if (error)\<close> tests for non-zero.\<close>

type_synonym error_code = nat

text \<open>
  Modelled from the spec: the Outbound Buffer \<^verbatim>\<open>MsgBuffer\<close> (msgbuffer.h is not part of
  the sources). It holds an immutable payload, copied in at enqueue time, and the
  mutable count \<open>pos\<close> of bytes already sent; \<open>len\<close> is the payload length, \<open>nbytes\<close>
  the signed remainder \<open>len - pos\<close>, and \<open>dpos\<close> the payload from \<open>pos\<close> onwards.
\<close>

record MsgBuffer =
  data :: "byte list"
  pos :: int

definition len :: "MsgBuffer \<Rightarrow> int" where
  "len b = int (length (data b))"

definition nbytes :: "MsgBuffer \<Rightarrow> int" where
  "nbytes b = len b - pos b"

definition dpos :: "MsgBuffer \<Rightarrow> byte list" where
  "dpos b = drop (nat (pos b)) (data b)"

datatype error = DeviceError | Length_error | System_error | Assertion_failed | Terminated

datatype thread = Io_thread | User_thread

text \<open>Handlers given to \<^verbatim>\<open>io_service.post\<close>.\<close>

datatype task = Do_read | Do_write bool

datatype logline =
  Log_device | Log_send_closed | Log_send | Log_send_obj
  | Log_receive error_code | Log_write error_code

text \<open>
  An outstanding \<^verbatim>\<open>async_write_some\<close>: the span \<^verbatim>\<open>buffer(buf_ref.dpos(), buf_ref.nbytes())\<close>
  it was given, and \<^verbatim>\<open>buf_ref.len\<close>, which the completion handler's assertion reads.
\<close>

record write_op =
  op_req :: "byte list"
  op_len :: int

text \<open>
  Modelled from the spec: the configuration constant \<^verbatim>\<open>MAX_TXQ_SIZE\<close> (the maximum
  queue depth) and the external codec, neither of which is part of the sources:
  \<open>msg_to_send_buffer\<close> serialises an encoded message, \<open>serialize_obj\<close> a structured
  message with the outgoing sequence number and the source system and component
  identifiers.
\<close>

record ('m, 'o) config =
  MAX_TXQ_SIZE :: nat
  msg_to_send_buffer :: "'m \<Rightarrow> byte list"
  serialize_obj :: "'o \<Rightarrow> byte \<Rightarrow> byte \<Rightarrow> byte \<Rightarrow> byte list"

record serial =
  \<comment> \<open>members inherited from \<^verbatim>\<open>MAVConnInterface\<close>\<close>
  sys_id :: byte
  comp_id :: byte
  tx_seq :: byte
  tx_total_bytes :: nat
  rx_total_bytes :: nat
  port_closed_cb :: bool
  \<comment> \<open>members of \<^verbatim>\<open>MAVConnSerial\<close>\<close>
  tx_in_progress :: bool
  tx_q :: "MsgBuffer list"
  rx_buf :: "byte list"
  \<comment> \<open>\<^verbatim>\<open>io_service\<close>: posted handlers, stopped flag\<close>
  posted :: "task list"
  io_stopped :: bool
  \<comment> \<open>\<^verbatim>\<open>serial_dev\<close>: open flag, the error code its close will report, outstanding operations\<close>
  dev_open :: bool
  dev_close_ec :: error_code
  dev_reads :: nat
  dev_writes :: "write_op list"
  \<comment> \<open>\<^verbatim>\<open>io_thread\<close>: joined already; exception that left \<^verbatim>\<open>io_service.run()\<close>\<close>
  io_joined :: bool
  io_exc :: "error option"
  \<comment> \<open>observations\<close>
  wire :: "byte list"
  received :: "byte list"
  parsed :: "byte list"
  enq :: "byte list"
  closed_cb_calls :: nat
  logged :: "logline list"

subsection \<open>Member functions\<close>

text \<open>
  Modelled from the spec: \<^verbatim>\<open>is_open()\<close> (declared in serial.h, not part of the
  sources) reports the open/closed flag of the device handle.
\<close>

definition is_open :: "serial \<Rightarrow> bool" where
  "is_open s = dev_open s"

text \<open>
  Modelled from the spec: \<^verbatim>\<open>iostat_tx_add\<close> and \<^verbatim>\<open>parse_buffer\<close> (interface.cpp is not
  part of the sources). The first adds to the cumulative transmit counter; the second
  hands the first \<open>bytes_received\<close> bytes of the buffer, in order, to the external
  parser and adds them to the cumulative receive counter.
\<close>

definition iostat_tx_add :: "nat \<Rightarrow> serial \<Rightarrow> serial" where
  "iostat_tx_add n s = s\<lparr>tx_total_bytes := tx_total_bytes s + n\<rparr>"

definition parse_buffer :: "byte list \<Rightarrow> nat \<Rightarrow> nat \<Rightarrow> serial \<Rightarrow> serial" where
  "parse_buffer buf bufsize bytes_received s =
     s\<lparr>rx_total_bytes := rx_total_bytes s + bytes_received,
       parsed := parsed s @ take bytes_received buf\<rparr>"

definition logError :: "logline \<Rightarrow> serial \<Rightarrow> serial" where
  "logError l s = s\<lparr>logged := logged s @ [l]\<rparr>"

text \<open>
  The constructor. \<open>dev_ec\<close> is the outcome of opening and configuring the device;
  on success the first \<^verbatim>\<open>do_read\<close> is posted and the I/O thread started.
\<close>

definition MAVConnSerial_init :: "byte \<Rightarrow> byte \<Rightarrow> nat \<Rightarrow> serial" where
  "MAVConnSerial_init system_id component_id rx_size =
     \<lparr>sys_id = system_id, comp_id = component_id, tx_seq = 0,
      tx_total_bytes = 0, rx_total_bytes = 0, port_closed_cb = False,
      tx_in_progress = False, tx_q = [], rx_buf = replicate rx_size 0,
      posted = [Do_read], io_stopped = False,
      dev_open = True, dev_close_ec = 0, dev_reads = 0, dev_writes = [],
      io_joined = False, io_exc = None,
      wire = [], received = [], parsed = [], enq = [],
      closed_cb_calls = 0, logged = [Log_device]\<rparr>"

definition MAVConnSerial :: "byte \<Rightarrow> byte \<Rightarrow> nat \<Rightarrow> error_code \<Rightarrow> error + serial" where
  "MAVConnSerial system_id component_id rx_size dev_ec =
     (if dev_ec \<noteq> 0 then Inl DeviceError
      else Inr (MAVConnSerial_init system_id component_id rx_size))"

text \<open>
  \<^verbatim>\<open>io_thread.join()\<close> by thread \<open>caller\<close>. A thread that joins itself gets
  \<^verbatim>\<open>std::system_error\<close> (\<^verbatim>\<open>resource_deadlock_would_occur\<close>) from \<^verbatim>\<open>std::thread::join\<close>.
\<close>

definition join_io_thread :: "thread \<Rightarrow> serial \<Rightarrow> error option \<times> serial" where
  "join_io_thread caller s =
     (if caller = Io_thread then (Some System_error, s)
      else (None, s\<lparr>io_joined := True\<rparr>))"

definition call_port_closed_cb :: "serial \<Rightarrow> serial" where
  "call_port_closed_cb s =
     (if port_closed_cb s then s\<lparr>closed_cb_calls := Suc (closed_cb_calls s)\<rparr> else s)"

text \<open>
  \<^verbatim>\<open>close()\<close>, run by thread \<open>caller\<close>. \<^verbatim>\<open>serial_dev.close()\<close> is the throwing overload:
  it closes the handle and cancels the outstanding operations, and throws
  \<^verbatim>\<open>boost::system::system_error\<close> when the device reports an error (the handle is
  closed all the same). Nothing in \<^verbatim>\<open>close()\<close> catches, so an exception ends it at
  that statement: the statements after it are not run.
\<close>

definition close :: "thread \<Rightarrow> serial \<Rightarrow> error option \<times> serial" where
  "close caller s =
     (if \<not> is_open s then (None, s)
      else
        let s1 = s\<lparr>io_stopped := True\<rparr>;
            s2 = s1\<lparr>dev_open := False, dev_reads := 0, dev_writes := []\<rparr>
        in if dev_close_ec s \<noteq> 0 then (Some System_error, s2)
           else
             let s3 = s2\<lparr>tx_q := []\<rparr>
             in if \<not> io_joined s3 then
                  (case join_io_thread caller s3 of
                     (Some e, s4) \<Rightarrow> (Some e, s4)
                   | (None, s4) \<Rightarrow> (None, call_port_closed_cb s4))
                else (None, call_port_closed_cb s3))"


definition send_bytes :: "('m, 'o) config \<Rightarrow> byte list \<Rightarrow> serial \<Rightarrow> error option \<times> serial" where
  "send_bytes cfg bytes s =
     (if \<not> is_open s then (None, logError Log_send_closed s)
      else if length (tx_q s) \<ge> MAX_TXQ_SIZE cfg then (Some Length_error, s)
      else (None, s\<lparr>tx_q := tx_q s @ [\<lparr>data = bytes, pos = 0\<rparr>],
                     posted := posted s @ [Do_write True]\<rparr>))"

text \<open>\<^verbatim>\<open>send_message(const mavlink_message_t *)\<close>; \<open>None\<close> is the null pointer.\<close>

definition send_message :: "('m, 'o) config \<Rightarrow> 'm option \<Rightarrow> serial \<Rightarrow> error option \<times> serial" where
  "send_message cfg message s =
     (case message of
        None \<Rightarrow> (Some Assertion_failed, s)
      | Some m \<Rightarrow>
          if \<not> is_open s then (None, logError Log_send_closed s)
          else
            let s1 = logError Log_send s
            in if length (tx_q s1) \<ge> MAX_TXQ_SIZE cfg then (Some Length_error, s1)
               else (None, s1\<lparr>tx_q := tx_q s1 @ [\<lparr>data = msg_to_send_buffer cfg m, pos = 0\<rparr>],
                               posted := posted s1 @ [Do_write True]\<rparr>))"

text \<open>
  \<^verbatim>\<open>send_message(const mavlink::Message &)\<close>; the buffer is built from the message,
  the link's sequence counter (which it advances) and the source identifiers.
\<close>

definition send_message_obj :: "('m, 'o) config \<Rightarrow> 'o \<Rightarrow> serial \<Rightarrow> error option \<times> serial" where
  "send_message_obj cfg message s =
     (if \<not> is_open s then (None, logError Log_send_closed s)
      else
        let s1 = logError Log_send_obj s
        in if length (tx_q s1) \<ge> MAX_TXQ_SIZE cfg then (Some Length_error, s1)
           else (None, s1\<lparr>tx_q := tx_q s1 @
                              [\<lparr>data = serialize_obj cfg message (tx_seq s1) (sys_id s1) (comp_id s1),
                                pos = 0\<rparr>],
                           tx_seq := tx_seq s1 + 1,
                           posted := posted s1 @ [Do_write True]\<rparr>))"

text \<open>\<^verbatim>\<open>do_read()\<close> issues one \<^verbatim>\<open>async_read_some\<close> into \<open>rx_buf\<close>.\<close>

definition do_read :: "serial \<Rightarrow> serial" where
  "do_read s = s\<lparr>dev_reads := Suc (dev_reads s)\<rparr>"

text \<open>The completion handler of the read, run on the I/O thread.\<close>

definition read_handler :: "error_code \<Rightarrow> nat \<Rightarrow> serial \<Rightarrow> error option \<times> serial" where
  "read_handler ec bytes_transferred s =
     (if ec \<noteq> 0 then close Io_thread (logError (Log_receive ec) s)
      else (None, do_read (parse_buffer (rx_buf s) (length (rx_buf s)) bytes_transferred s)))"

text \<open>
  \<^verbatim>\<open>do_write(check_tx_state)\<close>. \<open>buf_ref\<close> is the front of the queue; the queue is a
  \<^verbatim>\<open>std::list\<close>, so the reference stays the front element until it is popped.
\<close>

definition do_write :: "bool \<Rightarrow> serial \<Rightarrow> serial" where
  "do_write check_tx_state s =
     (if check_tx_state \<and> tx_in_progress s then s
      else
        (case tx_q s of
           [] \<Rightarrow> s
         | buf_ref # _ \<Rightarrow>
             s\<lparr>tx_in_progress := True,
               dev_writes := dev_writes s @
                 [\<lparr>op_req = take (nat (nbytes buf_ref)) (dpos buf_ref), op_len = len buf_ref\<rparr>]\<rparr>))"

text \<open>
  The completion handler of the write \<open>w\<close>, run on the I/O thread. Its \<open>buf_ref\<close> was
  the front of the queue when the write was issued; sends append at the back and only
  this handler pops, so when it finds the queue non-empty \<open>buf_ref\<close> is the front still.
  The assertion reads \<open>buf_ref.len\<close>, which never changes: \<open>op_len\<close> holds it.
\<close>

definition write_handler :: "write_op \<Rightarrow> error_code \<Rightarrow> nat \<Rightarrow> serial \<Rightarrow> error option \<times> serial" where
  "write_handler w ec bytes_transferred s =
     (if \<not> int bytes_transferred \<le> op_len w then (Some Assertion_failed, s)
      else if ec \<noteq> 0 then close Io_thread (logError (Log_write ec) s)
      else
        let s1 = iostat_tx_add bytes_transferred s
        in (case tx_q s1 of
              [] \<Rightarrow> (None, s1\<lparr>tx_in_progress := False\<rparr>)
            | buf_ref # rest \<Rightarrow>
                let buf' = buf_ref\<lparr>pos := pos buf_ref + int bytes_transferred\<rparr>;
                    s2 = s1\<lparr>tx_q := (if nbytes buf' = 0 then rest else buf' # rest)\<rparr>
                in if tx_q s2 \<noteq> [] then (None, do_write False s2)
                   else (None, s2\<lparr>tx_in_progress := False\<rparr>)))"

subsection \<open>The reactor and its environment\<close>

text \<open>
  One event is one atomic step: a call by a user thread (a send, with a message that
  is not null, \<^verbatim>\<open>close()\<close>, or the registration of the on-closed callback), the
  device going bad (\<open>Device_fault\<close> sets the error its close will report), the I/O
  thread running the next posted handler, or the device completing its oldest
  outstanding operation and the I/O thread running that operation's handler. A
  completion transfers at most the span it was given, and none when it reports an
  error; an event that does not meet this, or has no operation to complete, changes
  nothing. Handlers are dispatched only while the \<^verbatim>\<open>io_service\<close> is not stopped. An
  exception that leaves a handler leaves \<^verbatim>\<open>io_service.run()\<close> and the thread function,
  which terminates the process: no event is taken after it.

  The observations are updated here: \<open>wire\<close> by the bytes a write completion reports
  as transferred, \<open>received\<close> by the bytes a read completion delivers, and \<open>enq\<close> by
  the payload of each send that returned without error on the open link.
\<close>

datatype ('m, 'o) event =
  Send_bytes "byte list"
  | Send_message 'm
  | Send_message_obj 'o
  | Close
  | Register_closed_cb
  | Device_fault error_code
  | Run_posted
  | Read_done error_code "byte list"
  | Write_done error_code nat

definition io_result :: "error option \<times> serial \<Rightarrow> serial" where
  "io_result r = (case r of (None, s) \<Rightarrow> s | (Some e, s) \<Rightarrow> s\<lparr>io_exc := Some e\<rparr>)"

definition enqueued :: "bool \<Rightarrow> byte list \<Rightarrow> error option \<times> serial \<Rightarrow> serial" where
  "enqueued was_open payload r =
     (case r of
        (None, s) \<Rightarrow> if was_open then s\<lparr>enq := enq s @ payload\<rparr> else s
      | (Some e, s) \<Rightarrow> s)"

definition on_run_posted :: "serial \<Rightarrow> serial" where
  "on_run_posted s =
     (if io_stopped s then s
      else
        (case posted s of
           [] \<Rightarrow> s
         | Do_read # ts \<Rightarrow> do_read (s\<lparr>posted := ts\<rparr>)
         | Do_write c # ts \<Rightarrow> do_write c (s\<lparr>posted := ts\<rparr>)))"

definition on_read_done :: "error_code \<Rightarrow> byte list \<Rightarrow> serial \<Rightarrow> serial" where
  "on_read_done ec bs s =
     (if io_stopped s \<or> dev_reads s = 0 \<or> length (rx_buf s) < length bs \<or> (ec \<noteq> 0 \<and> bs \<noteq> [])
      then s
      else
        io_result (read_handler ec (length bs)
          (s\<lparr>dev_reads := dev_reads s - 1,
             rx_buf := bs @ drop (length bs) (rx_buf s),
             received := received s @ bs\<rparr>)))"

definition on_write_done :: "error_code \<Rightarrow> nat \<Rightarrow> serial \<Rightarrow> serial" where
  "on_write_done ec n s =
     (if io_stopped s then s
      else
        (case dev_writes s of
           [] \<Rightarrow> s
         | w # ws \<Rightarrow>
             if length (op_req w) < n \<or> (ec \<noteq> 0 \<and> n \<noteq> 0) then s
             else
               io_result (write_handler w ec n
                 (s\<lparr>dev_writes := ws, wire := wire s @ take n (op_req w)\<rparr>))))"

definition step :: "('m, 'o) config \<Rightarrow> ('m, 'o) event \<Rightarrow> serial \<Rightarrow> serial" where
  "step cfg e s =
     (if io_exc s \<noteq> None then s
      else
        (case e of
           Send_bytes bs \<Rightarrow> enqueued (is_open s) bs (send_bytes cfg bs s)
         | Send_message m \<Rightarrow>
             enqueued (is_open s) (msg_to_send_buffer cfg m) (send_message cfg (Some m) s)
         | Send_message_obj m \<Rightarrow>
             enqueued (is_open s) (serialize_obj cfg m (tx_seq s) (sys_id s) (comp_id s))
               (send_message_obj cfg m s)
         | Close \<Rightarrow> snd (close User_thread s)
         | Register_closed_cb \<Rightarrow> s\<lparr>port_closed_cb := True\<rparr>
         | Device_fault ec \<Rightarrow> s\<lparr>dev_close_ec := ec\<rparr>
         | Run_posted \<Rightarrow> on_run_posted s
         | Read_done ec bs \<Rightarrow> on_read_done ec bs s
         | Write_done ec n \<Rightarrow> on_write_done ec n s))"

definition run :: "('m, 'o) config \<Rightarrow> ('m, 'o) event list \<Rightarrow> serial \<Rightarrow> serial" where
  "run cfg evs s = fold (step cfg) evs s"


text \<open>A sequence of raw-byte sends; the results in call order.\<close>

fun sends :: "('m, 'o) config \<Rightarrow> byte list list \<Rightarrow> serial \<Rightarrow> error option list \<times> serial" where
  "sends cfg [] s = ([], s)"
| "sends cfg (b # bs) s =
     (case send_bytes cfg b s of (r, s') \<Rightarrow> (case sends cfg bs s' of (rs, s'') \<Rightarrow> (r # rs, s'')))"

text \<open>The part of a queued buffer that has not been sent yet.\<close>

definition unsent :: "MsgBuffer list \<Rightarrow> byte list" where
  "unsent q = concat (map dpos q)"

subsection \<open>The invariant of the link\<close>

text \<open>
  Offsets stay within their buffers; at most one write is outstanding, and it is the
  unsent span of the front buffer, with \<open>tx_in_progress\<close> set; a closed device has a
  stopped reactor; while the device is open, what the device accepted followed by what
  is still queued is what was enqueued; the parser has been given what was received;
  and only \<^verbatim>\<open>do_write(true)\<close> is ever posted.
\<close>

definition link_inv :: "serial \<Rightarrow> bool" where
  "link_inv s \<longleftrightarrow>
     (\<forall>b \<in> set (tx_q s). 0 \<le> pos b \<and> pos b \<le> len b)
   \<and> length (dev_writes s) \<le> 1
   \<and> (dev_writes s \<noteq> [] \<longrightarrow>
        tx_in_progress s \<and> \<not> io_stopped s \<and> io_exc s = None \<and> tx_q s \<noteq> []
        \<and> dev_writes s = [\<lparr>op_req = dpos (hd (tx_q s)), op_len = len (hd (tx_q s))\<rparr>])
   \<and> (\<not> dev_open s \<longrightarrow> io_stopped s)
   \<and> (dev_open s \<longrightarrow> wire s @ unsent (tx_q s) = enq s)
   \<and> prefix (wire s) (enq s)
   \<and> parsed s = received s
   \<and> Do_write False \<notin> set (posted s)"

subsection \<open>A concrete link\<close>

text \<open>
  A link with queue bound 4 and an 8-byte receive buffer, and the run of the scenario:
  buffers A (3 bytes), B (2), C (4) and D (1) are enqueued, E (1) is refused, and the
  device accepts the bytes in chunks of 2, 1, 2, 3, 1 and 1.
\<close>

definition demo_cfg :: "(byte list, byte list) config" where
  "demo_cfg = \<lparr>MAX_TXQ_SIZE = 4, msg_to_send_buffer = (\<lambda>m. m),
                serialize_obj = (\<lambda>m seq sysid compid. seq # sysid # compid # m)\<rparr>"

definition demo_link :: serial where
  "demo_link = MAVConnSerial_init 1 240 8"

definition demo_enqueue :: "(byte list, byte list) event list" where
  "demo_enqueue =
     [Register_closed_cb, Run_posted,
      Send_bytes [1, 2, 3], Send_bytes [4, 5], Send_bytes [6, 7, 8, 9], Send_bytes [10]]"

definition demo_full :: serial where
  "demo_full = run demo_cfg demo_enqueue demo_link"

definition demo_writing :: serial where
  "demo_writing = run demo_cfg [Send_bytes [11], Run_posted] demo_full"

definition demo_events :: "(byte list, byte list) event list" where
  "demo_events =
     demo_enqueue @ [Send_bytes [11], Run_posted] @
     [Write_done 0 2, Run_posted, Write_done 0 1, Write_done 0 2, Write_done 0 3,
      Write_done 0 1, Write_done 0 1]"

definition demo_drained :: serial where
  "demo_drained =
     run demo_cfg
       [Write_done 0 2, Run_posted, Write_done 0 1, Write_done 0 2, Write_done 0 3,
        Write_done 0 1, Write_done 0 1] demo_writing"

definition demo_closed :: serial where
  "demo_closed = run demo_cfg [Close] demo_full"

definition demo_faulty :: serial where
  "demo_faulty = run demo_cfg [Device_fault 5] demo_full"

section \<open>Properties\<close>

subsection \<open>Closing\<close>


lemma close_not_open: "\<not> is_open (snd (close t s))"
  by (simp add: close_def is_open_def Let_def join_io_thread_def call_port_closed_cb_def)





subsection \<open>Enqueueing\<close>

lemma sends_ok:
  "is_open s \<Longrightarrow> length (tx_q s) + length bss \<le> MAX_TXQ_SIZE cfg \<Longrightarrow>
   fst (sends cfg bss s) = replicate (length bss) None \<and>
   tx_q (snd (sends cfg bss s)) = tx_q s @ map (\<lambda>b. \<lparr>data = b, pos = 0\<rparr>) bss \<and>
   is_open (snd (sends cfg bss s))"
proof (induction bss arbitrary: s)
  case Nil
  then show ?case by simp
next
  case (Cons b bss)
  let ?s' = "s\<lparr>tx_q := tx_q s @ [\<lparr>data = b, pos = 0\<rparr>], posted := posted s @ [Do_write True]\<rparr>"
  have sb: "send_bytes cfg b s = (None, ?s')"
    using Cons.prems by (simp add: send_bytes_def)
  have "is_open ?s'" using Cons.prems by (simp add: is_open_def)
  moreover have "length (tx_q ?s') + length bss \<le> MAX_TXQ_SIZE cfg" using Cons.prems by simp
  ultimately have IH: "fst (sends cfg bss ?s') = replicate (length bss) None \<and>
   tx_q (snd (sends cfg bss ?s')) = tx_q ?s' @ map (\<lambda>b. \<lparr>data = b, pos = 0\<rparr>) bss \<and>
   is_open (snd (sends cfg bss ?s'))" by (rule Cons.IH)
  then show ?case by (cases "sends cfg bss ?s'") (simp add: sb)
qed

subsection \<open>Preservation of the invariant\<close>

lemma unsent_simps [simp]:
  "unsent [] = []" "unsent (b # q) = dpos b @ unsent q" "unsent (q @ [b]) = unsent q @ dpos b"
  by (simp_all add: unsent_def)

lemma dpos_fresh [simp]: "dpos \<lparr>data = bs, pos = 0\<rparr> = bs"
  by (simp add: dpos_def)

lemma len_fresh [simp]: "len \<lparr>data = bs, pos = 0\<rparr> = int (length bs)"
  by (simp add: len_def)

lemma span_dpos: "0 \<le> pos b \<Longrightarrow> pos b \<le> len b \<Longrightarrow> take (nat (nbytes b)) (dpos b) = dpos b"
  by (simp add: nbytes_def dpos_def len_def)

lemma length_dpos: "0 \<le> pos b \<Longrightarrow> pos b \<le> len b \<Longrightarrow> int (length (dpos b)) = len b - pos b"
  by (simp add: dpos_def len_def)

lemma dpos_advance:
  "0 \<le> pos b \<Longrightarrow> take n (dpos b) @ dpos (b\<lparr>pos := pos b + int n\<rparr>) = dpos b"
  by (simp add: dpos_def nat_add_distrib add.commute [of _ n] flip: drop_drop)

lemma len_advance [simp]: "len (b\<lparr>pos := p\<rparr>) = len b"
  by (simp add: len_def)

lemma inv_init: "link_inv (MAVConnSerial_init a b n)"
  by (simp add: link_inv_def MAVConnSerial_init_def)

lemma inv_close: "link_inv s \<Longrightarrow> link_inv (snd (close t s))"
  by (auto simp: link_inv_def close_def is_open_def Let_def join_io_thread_def
        call_port_closed_cb_def)

lemma inv_send_bytes: "link_inv s \<Longrightarrow> link_inv (enqueued (is_open s) bs (send_bytes cfg bs s))"
  by (auto simp: link_inv_def enqueued_def send_bytes_def is_open_def logError_def)

lemma inv_send_message:
  "link_inv s \<Longrightarrow>
   link_inv (enqueued (is_open s) (msg_to_send_buffer cfg m) (send_message cfg (Some m) s))"
  by (auto simp: link_inv_def enqueued_def send_message_def is_open_def logError_def Let_def)

lemma inv_send_message_obj:
  "link_inv s \<Longrightarrow>
   link_inv (enqueued (is_open s) (serialize_obj cfg m (tx_seq s) (sys_id s) (comp_id s))
     (send_message_obj cfg m s))"
  by (auto simp: link_inv_def enqueued_def send_message_obj_def is_open_def logError_def Let_def)

lemma inv_do_write:
  "link_inv s \<Longrightarrow> c \<or> dev_writes s = [] \<Longrightarrow> \<not> io_stopped s \<Longrightarrow> io_exc s = None \<Longrightarrow>
   link_inv (do_write c s)"
  by (auto simp: link_inv_def do_write_def span_dpos split: list.splits)

lemma inv_posted: "link_inv s \<Longrightarrow> set ts \<subseteq> set (posted s) \<Longrightarrow> link_inv (s\<lparr>posted := ts\<rparr>)"
  by (auto simp: link_inv_def)

lemma inv_do_read: "link_inv s \<Longrightarrow> link_inv (do_read s)"
  by (simp add: link_inv_def do_read_def)


lemma inv_io_exc: "link_inv s \<Longrightarrow> dev_writes s = [] \<Longrightarrow> link_inv (s\<lparr>io_exc := e\<rparr>)"
  by (simp add: link_inv_def)

lemma inv_io_result_close:
  "link_inv s \<Longrightarrow> link_inv (io_result (close t s))"
proof -
  assume i: "link_inv s"
  have "dev_writes (snd (close t s)) = [] \<or> snd (close t s) = s \<and> fst (close t s) = None"
    by (simp add: close_def Let_def join_io_thread_def call_port_closed_cb_def)
  then show ?thesis
    using inv_close [OF i, of t]
    by (cases "close t s"; cases "fst (close t s)") (auto simp: io_result_def inv_io_exc)
qed

lemma inv_on_run_posted:
  assumes i: "link_inv s" and e: "io_exc s = None"
  shows "link_inv (on_run_posted s)"
proof (cases "io_stopped s")
  case True
  then show ?thesis using i by (simp add: on_run_posted_def)
next
  case ns: False
  show ?thesis
  proof (cases "posted s")
    case Nil
    then show ?thesis using i by (simp add: on_run_posted_def)
  next
    case (Cons t ts)
    then have i': "link_inv (s\<lparr>posted := ts\<rparr>)" by (intro inv_posted [OF i]) auto
    show ?thesis
    proof (cases t)
      case Do_read
      then show ?thesis using Cons ns inv_do_read [OF i'] by (simp add: on_run_posted_def)
    next
      case (Do_write c)
      then have "c" using i Cons by (cases c) (auto simp: link_inv_def)
      then show ?thesis using Do_write Cons ns e inv_do_write [OF i', of c]
        by (simp add: on_run_posted_def)
    qed
  qed
qed

lemma inv_logError: "link_inv s \<Longrightarrow> link_inv (logError l s)"
  by (simp add: link_inv_def logError_def)

lemma inv_on_read_done: "link_inv s \<Longrightarrow> link_inv (on_read_done ec bs s)"
proof -
  assume i: "link_inv s"
  let ?s1 = "s\<lparr>dev_reads := dev_reads s - 1, rx_buf := bs @ drop (length bs) (rx_buf s),
               received := received s @ bs\<rparr>"
  show ?thesis
  proof (cases "io_stopped s \<or> dev_reads s = 0 \<or> length (rx_buf s) < length bs \<or> (ec \<noteq> 0 \<and> bs \<noteq> [])")
    case True
    then show ?thesis using i by (simp add: on_read_done_def)
  next
    case en: False
    show ?thesis
    proof (cases "ec = 0")
      case True
      then have "on_read_done ec bs s =
          do_read (parse_buffer (rx_buf ?s1) (length (rx_buf ?s1)) (length bs) ?s1)"
        using en by (simp add: on_read_done_def read_handler_def io_result_def)
      moreover have "link_inv \<dots>"
        using i by (simp add: link_inv_def do_read_def parse_buffer_def)
      ultimately show ?thesis by simp
    next
      case False
      with en have bs: "bs = []" by simp
      have "link_inv (logError (Log_receive ec) ?s1)"
        using i bs by (simp add: link_inv_def logError_def)
      then have "link_inv (io_result (close Io_thread (logError (Log_receive ec) ?s1)))"
        by (rule inv_io_result_close)
      then show ?thesis using en False by (simp add: on_read_done_def read_handler_def)
    qed
  qed
qed


lemma nbytes_advance:
  "0 \<le> pos b \<Longrightarrow> pos b \<le> len b \<Longrightarrow>
   nbytes (b\<lparr>pos := pos b + int n\<rparr>) = 0 \<longleftrightarrow> n = length (dpos b)"
  by (auto simp: nbytes_def dpos_def len_def)

lemma inv_on_write_done:
  assumes i: "link_inv s"
  shows "link_inv (on_write_done ec n s)"
proof (cases "io_stopped s \<or> dev_writes s = []")
  case True
  then show ?thesis using i by (auto simp: on_write_done_def)
next
  case False
  then have ns: "\<not> io_stopped s" and dw: "dev_writes s \<noteq> []" by simp_all
  from i dw obtain b rest where q: "tx_q s = b # rest"
    by (cases "tx_q s") (auto simp: link_inv_def)
  let ?w = "\<lparr>op_req = dpos b, op_len = len b\<rparr>"
  from i dw q have w: "dev_writes s = [?w]" and ip: "tx_in_progress s" and ex: "io_exc s = None"
    by (auto simp: link_inv_def)
  from i q have p0: "0 \<le> pos b" and pl: "pos b \<le> len b" by (auto simp: link_inv_def)
  from i ns have op: "dev_open s" by (auto simp: link_inv_def)
  from i op q have weq: "wire s @ dpos b @ unsent rest = enq s" by (auto simp: link_inv_def)
  show ?thesis
  proof (cases "length (dpos b) < n \<or> (ec \<noteq> 0 \<and> n \<noteq> 0)")
    case True
    then show ?thesis using i ns w by (simp add: on_write_done_def)
  next
    case en: False
    then have n: "n \<le> length (dpos b)" by simp
    have nl: "int n \<le> len b" using n length_dpos [OF p0 pl] p0 by linarith
    let ?s1 = "s\<lparr>dev_writes := [], wire := wire s @ take n (dpos b)\<rparr>"
    have owd: "on_write_done ec n s = io_result (write_handler ?w ec n ?s1)"
      using ns w en by (auto simp: on_write_done_def)
    show ?thesis
    proof (cases "ec = 0")
      case False
      with en have "n = 0" by simp
      then have "link_inv (logError (Log_write ec) ?s1)"
        using i by (simp add: link_inv_def logError_def)
      then have "link_inv (io_result (close Io_thread (logError (Log_write ec) ?s1)))"
        by (rule inv_io_result_close)
      then show ?thesis using owd False nl by (simp add: write_handler_def)
    next
      case True
      let ?b' = "b\<lparr>pos := pos b + int n\<rparr>"
      let ?q' = "if nbytes ?b' = 0 then rest else ?b' # rest"
      let ?s2 = "?s1\<lparr>tx_total_bytes := tx_total_bytes s + n, tx_q := ?q'\<rparr>"
      have weq': "(wire s @ take n (dpos b)) @ unsent ?q' = enq s"
      proof (cases "n = length (dpos b)")
        case True
        then have "nbytes ?b' = 0" using nbytes_advance [OF p0 pl, of n] by simp
        then show ?thesis using True weq by simp
      next
        case False
        then have "nbytes ?b' \<noteq> 0" using nbytes_advance [OF p0 pl, of n] by simp
        moreover have "wire s @ (take n (dpos b) @ dpos ?b') @ unsent rest = enq s"
          using weq by (simp only: dpos_advance [OF p0])
        ultimately show ?thesis by simp
      qed
      have i2: "link_inv ?s2"
        unfolding link_inv_def
      proof (intro conjI)
        show "\<forall>x\<in>set (tx_q ?s2). 0 \<le> pos x \<and> pos x \<le> len x"
          using i q p0 pl n length_dpos [OF p0 pl] by (auto simp: link_inv_def)
        show "dev_open ?s2 \<longrightarrow> wire ?s2 @ unsent (tx_q ?s2) = enq ?s2"
          using weq' by simp
        show "prefix (wire ?s2) (enq ?s2)"
        proof -
          have "enq s = (wire s @ take n (dpos b)) @ unsent ?q'" using weq' by simp
          then have "prefix (wire s @ take n (dpos b)) (enq s)" by (rule prefixI)
          then show ?thesis by simp
        qed
      qed (use i in \<open>auto simp: link_inv_def\<close>)
      have wh: "write_handler ?w 0 n ?s1 =
          (None, if ?q' \<noteq> [] then do_write False ?s2 else ?s2\<lparr>tx_in_progress := False\<rparr>)"
        using nl q by (simp add: write_handler_def iostat_tx_add_def Let_def)
      have "link_inv (if ?q' \<noteq> [] then do_write False ?s2 else ?s2\<lparr>tx_in_progress := False\<rparr>)"
      proof (cases "?q' \<noteq> []")
        case True
        have "link_inv (do_write False ?s2)"
          by (rule inv_do_write [OF i2]) (use ns ex in simp_all)
        then show ?thesis using True by simp
      next
        case False
        have "link_inv (?s2\<lparr>tx_in_progress := False\<rparr>)"
          using i2 by (simp add: link_inv_def)
        then show ?thesis using False by simp
      qed
      then show ?thesis using owd True wh by (simp add: io_result_def)
    qed
  qed
qed


lemma inv_step: "link_inv s \<Longrightarrow> link_inv (step cfg e s)"
proof (cases "io_exc s = None")
  case False
  assume "link_inv s"
  then show ?thesis using False by (simp add: step_def)
next
  case True
  assume i: "link_inv s"
  show ?thesis
  proof (cases e)
    case (Register_closed_cb)
    then show ?thesis using i True by (simp add: step_def link_inv_def)
  next
    case (Device_fault ec)
    then show ?thesis using i True by (simp add: step_def link_inv_def)
  qed (use i True in \<open>simp_all add: step_def inv_send_bytes inv_send_message
         inv_send_message_obj inv_close
         inv_on_run_posted inv_on_read_done inv_on_write_done\<close>)
qed

lemma inv_fold: "link_inv s \<Longrightarrow> link_inv (fold (step cfg) evs s)"
  by (induction evs arbitrary: s) (simp_all add: inv_step)

lemma inv_run: "link_inv (run cfg evs (MAVConnSerial_init a b n))"
  unfolding run_def by (rule inv_fold [OF inv_init])


text \<open>
  While a write is outstanding the queue is not empty, so in no run is the handler of
  a write completion dispatched on an empty queue.
\<close>

lemma write_done_on_empty_queue:
  assumes "tx_q (run cfg evs (MAVConnSerial_init a c k)) = []"
  shows "step cfg (Write_done ec n) (run cfg evs (MAVConnSerial_init a c k))
           = run cfg evs (MAVConnSerial_init a c k)"
proof -
  have "link_inv (run cfg evs (MAVConnSerial_init a c k))" by (rule inv_run)
  then have "dev_writes (run cfg evs (MAVConnSerial_init a c k)) = []"
    using assms by (auto simp: link_inv_def)
  then show ?thesis by (simp add: step_def on_write_done_def)
qed

subsection \<open>Runs\<close>

lemma run_append: "run cfg (evs @ evs') s = run cfg evs' (run cfg evs s)"
  by (simp add: run_def)

lemma write_chunk_partial:
  assumes "io_exc s = None" and "\<not> io_stopped s" and "tx_q s = b # rest"
    and "0 \<le> pos b" and "dev_writes s = [\<lparr>op_req = dpos b, op_len = len b\<rparr>]"
    and "pos b + int n < len b"
  shows "io_exc (step cfg (Write_done 0 n) s) = None
       \<and> \<not> io_stopped (step cfg (Write_done 0 n) s)
       \<and> tx_q (step cfg (Write_done 0 n) s) = b\<lparr>pos := pos b + int n\<rparr> # rest
       \<and> dev_writes (step cfg (Write_done 0 n) s)
           = [\<lparr>op_req = dpos (b\<lparr>pos := pos b + int n\<rparr>), op_len = len b\<rparr>]
       \<and> tx_total_bytes (step cfg (Write_done 0 n) s) = tx_total_bytes s + n"
proof -
  have pl: "pos b \<le> len b" using assms(6) by simp
  have n: "\<not> length (dpos b) < n" and nl: "int n \<le> len b"
    using length_dpos [OF assms(4) pl] assms(4,6) by linarith+
  let ?b' = "b\<lparr>pos := pos b + int n\<rparr>"
  have nb: "nbytes ?b' \<noteq> 0" using assms(6) by (simp add: nbytes_def)
  have sp: "take (nat (nbytes ?b')) (dpos ?b') = dpos ?b'"
    by (rule span_dpos) (use assms(4,6) in simp_all)
  have "step cfg (Write_done 0 n) s =
      s\<lparr>dev_writes := [\<lparr>op_req = dpos ?b', op_len = len b\<rparr>],
        wire := wire s @ take n (dpos b),
        tx_total_bytes := tx_total_bytes s + n,
        tx_q := ?b' # rest, tx_in_progress := True\<rparr>"
    using assms(1,2,3,5) n nl nb sp
    by (simp add: step_def on_write_done_def write_handler_def io_result_def iostat_tx_add_def
          do_write_def Let_def)
  then show ?thesis using assms(1,2) by simp
qed

lemma write_chunk_final:
  assumes "io_exc s = None" and "\<not> io_stopped s" and "tx_q s = b # rest"
    and "0 \<le> pos b" and "dev_writes s = [\<lparr>op_req = dpos b, op_len = len b\<rparr>]"
    and "pos b + int n = len b"
  shows "tx_q (step cfg (Write_done 0 n) s) = rest
       \<and> tx_total_bytes (step cfg (Write_done 0 n) s) = tx_total_bytes s + n"
proof -
  have pl: "pos b \<le> len b" using assms(6) by simp
  have n: "\<not> length (dpos b) < n" and nl: "int n \<le> len b"
    using length_dpos [OF assms(4) pl] assms(4,6) by linarith+
  let ?b' = "b\<lparr>pos := pos b + int n\<rparr>"
  have nb: "nbytes ?b' = 0" using assms(6) by (simp add: nbytes_def)
  let ?s2 = "s\<lparr>dev_writes := [], wire := wire s @ take n (dpos b),
               tx_total_bytes := tx_total_bytes s + n, tx_q := rest\<rparr>"
  have "step cfg (Write_done 0 n) s =
      (if rest \<noteq> [] then do_write False ?s2 else ?s2\<lparr>tx_in_progress := False\<rparr>)"
    using assms(1,2,3,5) n nl nb
    by (simp add: step_def on_write_done_def write_handler_def io_result_def iostat_tx_add_def
          Let_def)
  then show ?thesis by (cases rest) (simp_all add: do_write_def)
qed

lemma write_chunks_partial:
  assumes "io_exc s = None" and "\<not> io_stopped s" and "tx_q s = b # rest"
    and "0 \<le> pos b" and "dev_writes s = [\<lparr>op_req = dpos b, op_len = len b\<rparr>]"
    and "pos b + int (sum_list ns) < len b"
  shows "io_exc (run cfg (map (Write_done 0) ns) s) = None
       \<and> \<not> io_stopped (run cfg (map (Write_done 0) ns) s)
       \<and> tx_q (run cfg (map (Write_done 0) ns) s) = b\<lparr>pos := pos b + int (sum_list ns)\<rparr> # rest
       \<and> dev_writes (run cfg (map (Write_done 0) ns) s)
           = [\<lparr>op_req = dpos (b\<lparr>pos := pos b + int (sum_list ns)\<rparr>), op_len = len b\<rparr>]
       \<and> tx_total_bytes (run cfg (map (Write_done 0) ns) s) = tx_total_bytes s + sum_list ns"
  using assms
proof (induction ns arbitrary: s b)
  case Nil
  then show ?case by (simp add: run_def)
next
  case (Cons n ns)
  let ?s' = "step cfg (Write_done 0 n) s"
  let ?b' = "b\<lparr>pos := pos b + int n\<rparr>"
  have "pos b + int n < len b" using Cons.prems(6) by simp
  note one = write_chunk_partial [OF Cons.prems(1-5) this, of cfg]
  have "io_exc (run cfg (map (Write_done 0) ns) ?s') = None
       \<and> \<not> io_stopped (run cfg (map (Write_done 0) ns) ?s')
       \<and> tx_q (run cfg (map (Write_done 0) ns) ?s') = ?b'\<lparr>pos := pos ?b' + int (sum_list ns)\<rparr> # rest
       \<and> dev_writes (run cfg (map (Write_done 0) ns) ?s')
           = [\<lparr>op_req = dpos (?b'\<lparr>pos := pos ?b' + int (sum_list ns)\<rparr>), op_len = len ?b'\<rparr>]
       \<and> tx_total_bytes (run cfg (map (Write_done 0) ns) ?s') = tx_total_bytes ?s' + sum_list ns"
  proof (rule Cons.IH)
    show "io_exc ?s' = None" "\<not> io_stopped ?s'" "tx_q ?s' = ?b' # rest"
      using one by simp_all
    show "0 \<le> pos ?b'" using Cons.prems(4) by simp
    show "dev_writes ?s' = [\<lparr>op_req = dpos ?b', op_len = len ?b'\<rparr>]" using one by simp
    show "pos ?b' + int (sum_list ns) < len ?b'" using Cons.prems(6) by simp
  qed
  moreover have "run cfg (map (Write_done 0) (n # ns)) s = run cfg (map (Write_done 0) ns) ?s'"
    by (simp add: run_def)
  ultimately show ?case using one by (simp add: add.assoc)
qed

subsection \<open>The concrete link, evaluated\<close>

lemmas link_defs =
  run_def step_def on_run_posted_def on_read_done_def on_write_done_def io_result_def
  enqueued_def send_bytes_def send_message_def send_message_obj_def close_def is_open_def
  join_io_thread_def call_port_closed_cb_def do_read_def do_write_def read_handler_def
  write_handler_def iostat_tx_add_def parse_buffer_def logError_def
  len_def nbytes_def dpos_def MAVConnSerial_init_def Let_def

lemma demo_cfg_simps [simp]:
  "MAX_TXQ_SIZE demo_cfg = 4" "msg_to_send_buffer demo_cfg m = m"
  "serialize_obj demo_cfg m a b c = a # b # c # m"
  by (simp_all add: demo_cfg_def)

lemma demo_link_eval:
  "demo_link =
     \<lparr>sys_id = 1, comp_id = 240, tx_seq = 0, tx_total_bytes = 0, rx_total_bytes = 0,
      port_closed_cb = False, tx_in_progress = False, tx_q = [],
      rx_buf = [0, 0, 0, 0, 0, 0, 0, 0], posted = [Do_read], io_stopped = False,
      dev_open = True, dev_close_ec = 0, dev_reads = 0, dev_writes = [],
      io_joined = False, io_exc = None, wire = [], received = [], parsed = [], enq = [],
      closed_cb_calls = 0, logged = [Log_device]\<rparr>"
  by (simp add: demo_link_def MAVConnSerial_init_def eval_nat_numeral)

lemma demo_full_eval:
  "demo_full =
     \<lparr>sys_id = 1, comp_id = 240, tx_seq = 0, tx_total_bytes = 0, rx_total_bytes = 0,
      port_closed_cb = True, tx_in_progress = False,
      tx_q = [\<lparr>data = [1, 2, 3], pos = 0\<rparr>, \<lparr>data = [4, 5], pos = 0\<rparr>,
              \<lparr>data = [6, 7, 8, 9], pos = 0\<rparr>, \<lparr>data = [10], pos = 0\<rparr>],
      rx_buf = [0, 0, 0, 0, 0, 0, 0, 0],
      posted = [Do_write True, Do_write True, Do_write True, Do_write True],
      io_stopped = False, dev_open = True, dev_close_ec = 0, dev_reads = 1,
      dev_writes = [], io_joined = False, io_exc = None, wire = [], received = [],
      parsed = [], enq = [1, 2, 3, 4, 5, 6, 7, 8, 9, 10], closed_cb_calls = 0,
      logged = [Log_device]\<rparr>"
  by (simp add: demo_full_def demo_enqueue_def demo_link_eval link_defs)

lemma demo_writing_eval:
  "demo_writing =
     \<lparr>sys_id = 1, comp_id = 240, tx_seq = 0, tx_total_bytes = 0, rx_total_bytes = 0,
      port_closed_cb = True, tx_in_progress = True,
      tx_q = [\<lparr>data = [1, 2, 3], pos = 0\<rparr>, \<lparr>data = [4, 5], pos = 0\<rparr>,
              \<lparr>data = [6, 7, 8, 9], pos = 0\<rparr>, \<lparr>data = [10], pos = 0\<rparr>],
      rx_buf = [0, 0, 0, 0, 0, 0, 0, 0],
      posted = [Do_write True, Do_write True, Do_write True],
      io_stopped = False, dev_open = True, dev_close_ec = 0, dev_reads = 1,
      dev_writes = [\<lparr>op_req = [1, 2, 3], op_len = 3\<rparr>], io_joined = False,
      io_exc = None, wire = [], received = [], parsed = [],
      enq = [1, 2, 3, 4, 5, 6, 7, 8, 9, 10], closed_cb_calls = 0,
      logged = [Log_device]\<rparr>"
  by (simp add: demo_writing_def demo_full_eval link_defs)

lemma demo_drained_eval:
  "demo_drained =
     \<lparr>sys_id = 1, comp_id = 240, tx_seq = 0, tx_total_bytes = 10, rx_total_bytes = 0,
      port_closed_cb = True, tx_in_progress = False, tx_q = [],
      rx_buf = [0, 0, 0, 0, 0, 0, 0, 0], posted = [Do_write True, Do_write True],
      io_stopped = False, dev_open = True, dev_close_ec = 0, dev_reads = 1,
      dev_writes = [], io_joined = False, io_exc = None,
      wire = [1, 2, 3, 4, 5, 6, 7, 8, 9, 10], received = [], parsed = [],
      enq = [1, 2, 3, 4, 5, 6, 7, 8, 9, 10], closed_cb_calls = 0,
      logged = [Log_device]\<rparr>"
  by (simp add: demo_drained_def demo_writing_eval link_defs)

lemma demo_closed_eval:
  "demo_closed =
     \<lparr>sys_id = 1, comp_id = 240, tx_seq = 0, tx_total_bytes = 0, rx_total_bytes = 0,
      port_closed_cb = True, tx_in_progress = False, tx_q = [],
      rx_buf = [0, 0, 0, 0, 0, 0, 0, 0],
      posted = [Do_write True, Do_write True, Do_write True, Do_write True],
      io_stopped = True, dev_open = False, dev_close_ec = 0, dev_reads = 0,
      dev_writes = [], io_joined = True, io_exc = None, wire = [], received = [],
      parsed = [], enq = [1, 2, 3, 4, 5, 6, 7, 8, 9, 10], closed_cb_calls = 1,
      logged = [Log_device]\<rparr>"
  by (simp add: demo_closed_def demo_full_eval link_defs)

lemma demo_faulty_eval:
  "demo_faulty =
     \<lparr>sys_id = 1, comp_id = 240, tx_seq = 0, tx_total_bytes = 0, rx_total_bytes = 0,
      port_closed_cb = True, tx_in_progress = False,
      tx_q = [\<lparr>data = [1, 2, 3], pos = 0\<rparr>, \<lparr>data = [4, 5], pos = 0\<rparr>,
              \<lparr>data = [6, 7, 8, 9], pos = 0\<rparr>, \<lparr>data = [10], pos = 0\<rparr>],
      rx_buf = [0, 0, 0, 0, 0, 0, 0, 0],
      posted = [Do_write True, Do_write True, Do_write True, Do_write True],
      io_stopped = False, dev_open = True, dev_close_ec = 5, dev_reads = 1,
      dev_writes = [], io_joined = False, io_exc = None, wire = [], received = [],
      parsed = [], enq = [1, 2, 3, 4, 5, 6, 7, 8, 9, 10], closed_cb_calls = 0,
      logged = [Log_device]\<rparr>"
  by (simp add: demo_faulty_def demo_full_eval link_defs)


lemma demo_drained_run: "run demo_cfg demo_events (MAVConnSerial_init 1 240 8) = demo_drained"
  by (simp only: demo_events_def run_append demo_drained_def demo_writing_def demo_full_def
        demo_link_def)

lemma demo_writing_run:
  "run demo_cfg (demo_enqueue @ [Send_bytes [11], Run_posted]) (MAVConnSerial_init 1 240 8)
     = demo_writing"
  by (simp only: run_append demo_writing_def demo_full_def demo_link_def)

lemma demo_full_run: "run demo_cfg demo_enqueue (MAVConnSerial_init 1 240 8) = demo_full"
  by (simp only: demo_full_def demo_link_def)

subsection \<open>Claims on the send path\<close>

text \<open>
  C3. A send on an open link whose queue already holds \<open>MAX_TXQ_SIZE\<close> buffers (or
  more) fails with the length error and leaves the queue as it was: \<^verbatim>\<open>send_bytes\<close>
  leaves the whole state unchanged, the two \<^verbatim>\<open>send_message\<close> overloads have written
  their log line and nothing else. In particular, when sends fill the queue up to the
  bound, each of them succeeds, the queue then holds \<open>MAX_TXQ_SIZE\<close> buffers, and the
  next send fails and leaves it at that length.
\<close>

theorem send_overflow:
  assumes "is_open s"
  shows "(MAX_TXQ_SIZE cfg \<le> length (tx_q s) \<longrightarrow>
            send_bytes cfg bs s = (Some Length_error, s)
          \<and> send_message cfg (Some m) s = (Some Length_error, s\<lparr>logged := logged s @ [Log_send]\<rparr>)
          \<and> send_message_obj cfg ob s =
              (Some Length_error, s\<lparr>logged := logged s @ [Log_send_obj]\<rparr>))
       \<and> (length (tx_q s) + length bss = MAX_TXQ_SIZE cfg \<longrightarrow>
            fst (sends cfg bss s) = replicate (length bss) None
          \<and> length (tx_q (snd (sends cfg bss s))) = MAX_TXQ_SIZE cfg
          \<and> send_bytes cfg bs (snd (sends cfg bss s)) =
              (Some Length_error, snd (sends cfg bss s)))"
proof (intro conjI impI)
  assume full: "MAX_TXQ_SIZE cfg \<le> length (tx_q s)"
  show "send_bytes cfg bs s = (Some Length_error, s)"
    using assms full by (simp add: send_bytes_def)
  show "send_message cfg (Some m) s = (Some Length_error, s\<lparr>logged := logged s @ [Log_send]\<rparr>)"
    using assms full by (simp add: send_message_def logError_def)
  show "send_message_obj cfg ob s = (Some Length_error, s\<lparr>logged := logged s @ [Log_send_obj]\<rparr>)"
    using assms full by (simp add: send_message_obj_def logError_def)
next
  assume k: "length (tx_q s) + length bss = MAX_TXQ_SIZE cfg"
  then have le: "length (tx_q s) + length bss \<le> MAX_TXQ_SIZE cfg" by simp
  note ok = sends_ok [OF assms le]
  show "fst (sends cfg bss s) = replicate (length bss) None" using ok by simp
  show l: "length (tx_q (snd (sends cfg bss s))) = MAX_TXQ_SIZE cfg" using ok k by simp
  show "send_bytes cfg bs (snd (sends cfg bss s)) = (Some Length_error, snd (sends cfg bss s))"
    using ok l by (simp add: send_bytes_def)
qed

theorem send_overflow_witness:
  "is_open demo_full \<and> MAX_TXQ_SIZE demo_cfg \<le> length (tx_q demo_full)
   \<and> send_bytes demo_cfg [11] demo_full = (Some Length_error, demo_full)
   \<and> fst (send_message demo_cfg (Some [11]) demo_full) = Some Length_error
   \<and> tx_q (snd (send_message demo_cfg (Some [11]) demo_full)) = tx_q demo_full
   \<and> fst (send_message_obj demo_cfg [11] demo_full) = Some Length_error
   \<and> tx_q (snd (send_message_obj demo_cfg [11] demo_full)) = tx_q demo_full
   \<and> is_open demo_link
   \<and> fst (sends demo_cfg [[1, 2, 3], [4, 5], [6, 7, 8, 9], [10]] demo_link)
       = [None, None, None, None]
   \<and> length (tx_q (snd (sends demo_cfg [[1, 2, 3], [4, 5], [6, 7, 8, 9], [10]] demo_link))) = 4
   \<and> fst (send_bytes demo_cfg [11]
        (snd (sends demo_cfg [[1, 2, 3], [4, 5], [6, 7, 8, 9], [10]] demo_link)))
       = Some Length_error"
proof -
  have o: "is_open demo_full" by (simp add: demo_full_eval is_open_def)
  have f: "MAX_TXQ_SIZE demo_cfg \<le> length (tx_q demo_full)" by (simp add: demo_full_eval)
  have o': "is_open demo_link" by (simp add: demo_link_eval is_open_def)
  have k: "length (tx_q demo_link) + length [[1, 2, 3], [4, 5], [6, 7, 8, 9], [10::byte]]
             = MAX_TXQ_SIZE demo_cfg"
    by (simp add: demo_link_eval)
  from send_overflow [OF o, of demo_cfg "[11]" "[11]" "[11]" "[]"] f
    send_overflow [OF o', of demo_cfg "[11]" "[11]" "[11]" "[[1, 2, 3], [4, 5], [6, 7, 8, 9], [10]]"] k
  show ?thesis using o f o' by simp
qed

text \<open>
  C6. A send on a link that is not open returns without error and without enqueueing:
  the state it leaves differs from the one it found by the logged line only, so the
  payload is dropped. A link is not open after \<^verbatim>\<open>close()\<close>, however that call ended.
\<close>

theorem send_closed_dropped:
  assumes "\<not> is_open s"
  shows "send_bytes cfg bs s = (None, s\<lparr>logged := logged s @ [Log_send_closed]\<rparr>)
       \<and> send_message cfg (Some m) s = (None, s\<lparr>logged := logged s @ [Log_send_closed]\<rparr>)
       \<and> send_message_obj cfg ob s = (None, s\<lparr>logged := logged s @ [Log_send_closed]\<rparr>)
       \<and> \<not> is_open (snd (close t s'))"
  using assms close_not_open [of t s']
  by (simp add: send_bytes_def send_message_def send_message_obj_def logError_def)

theorem send_closed_dropped_witness:
  "\<not> is_open demo_closed
   \<and> send_bytes demo_cfg [11] demo_closed
       = (None, demo_closed\<lparr>logged := [Log_device, Log_send_closed]\<rparr>)
   \<and> send_message demo_cfg (Some [11]) demo_closed
       = (None, demo_closed\<lparr>logged := [Log_device, Log_send_closed]\<rparr>)
   \<and> send_message_obj demo_cfg [11] demo_closed
       = (None, demo_closed\<lparr>logged := [Log_device, Log_send_closed]\<rparr>)
   \<and> tx_q (demo_closed\<lparr>logged := [Log_device, Log_send_closed]\<rparr>) = []"
proof -
  have c: "\<not> is_open demo_closed" by (simp add: demo_closed_eval is_open_def)
  have l: "logged demo_closed = [Log_device]" by (simp add: demo_closed_eval)
  have q: "tx_q demo_closed = []" by (simp add: demo_closed_eval)
  from send_closed_dropped [OF c, of demo_cfg "[11]" "[11]" "[11]"] show ?thesis
    using c l q by simp
qed

subsection \<open>Claims on closing\<close>




text \<open>
  C7 (amended). \<^verbatim>\<open>close()\<close> has no handler of its own. Called off the I/O thread on an
  open link, it returns without error when the device handle closes without error;
  when the device reports an error on closing, that error is thrown to the caller.
  The link is closed afterwards in both cases.
\<close>

theorem close_error_propagates:
  assumes "is_open s"
  shows "fst (close User_thread s) = (if dev_close_ec s = 0 then None else Some System_error)
       \<and> \<not> is_open (snd (close User_thread s))"
  using assms close_not_open [of User_thread s]
  by (simp add: close_def Let_def join_io_thread_def)

theorem close_error_propagates_witness:
  "is_open demo_full \<and> dev_close_ec demo_full = 0 \<and> fst (close User_thread demo_full) = None
   \<and> \<not> is_open (snd (close User_thread demo_full))"
proof -
  have f: "is_open demo_full" "dev_close_ec demo_full = 0"
    by (simp_all add: demo_full_eval is_open_def)
  from close_error_propagates [OF f(1)] show ?thesis using f by simp
qed

text \<open>
  C7, as stated, fails: on the open link \<open>demo_faulty\<close>, whose device reports error 5
  when closed, \<^verbatim>\<open>close()\<close> called by a user thread raises the system error.
\<close>

theorem close_raises_counterexample:
  "is_open demo_faulty \<and> fst (close User_thread demo_faulty) = Some System_error"
  by (simp add: demo_faulty_eval close_def is_open_def Let_def)

subsection \<open>Claims on the write chain\<close>

text \<open>
  C1. Take any run of the link from its construction, and let \<open>enq\<close> be the
  concatenation, in call order, of the payloads of the sends that returned without
  error on the open link. The bytes the device has accepted are always a prefix of
  \<open>enq\<close>, so no buffer's bytes are reordered or interleaved with another's; while the
  link is open they are followed in \<open>enq\<close> by exactly the unsent parts of the queued
  buffers, in queue order; and once the queue has drained they are \<open>enq\<close> itself.
\<close>

theorem fifo_wire:
  fixes cfg :: "('m, 'o) config" and evs a c k
  defines "s \<equiv> run cfg evs (MAVConnSerial_init a c k)"
  shows "prefix (wire s) (enq s)
       \<and> (is_open s \<longrightarrow> wire s @ unsent (tx_q s) = enq s)
       \<and> (is_open s \<and> tx_q s = [] \<longrightarrow> wire s = enq s)"
proof -
  have "link_inv s" unfolding s_def by (rule inv_run)
  then show ?thesis by (auto simp: link_inv_def is_open_def)
qed

theorem fifo_wire_witness:
  "is_open demo_drained \<and> tx_q demo_drained = []
   \<and> enq demo_drained = [1, 2, 3] @ [4, 5] @ [6, 7, 8, 9] @ [10]
   \<and> wire demo_drained = enq demo_drained"
proof -
  have d: "is_open demo_drained" "tx_q demo_drained = []"
    "enq demo_drained = [1, 2, 3, 4, 5, 6, 7, 8, 9, 10]"
    by (simp_all add: demo_drained_eval is_open_def)
  from fifo_wire [of demo_cfg demo_events 1 240 8] show ?thesis
    using d by (simp add: demo_drained_run)
qed

text \<open>
  C2. Take any reachable state in which buffer \<open>b\<close> is at the front of the queue with
  a write outstanding, and successful completions transferring \<open>ns\<close>. Its offset is
  within its length. As long as the offset advanced by the cumulative count stays
  below the length, the buffer is still at the front, with that offset, and
  \<open>tx_total_bytes\<close> has grown by the sum of the counts; the completion that brings the
  offset to the length pops the buffer and adds its count as well.
\<close>

theorem partial_write_drain:
  fixes cfg :: "('m, 'o) config" and evs a c k
  defines "s \<equiv> run cfg evs (MAVConnSerial_init a c k)"
  assumes q: "tx_q s = b # rest" and w: "dev_writes s \<noteq> []"
    and part: "pos b + int (sum_list ns) < len b"
  shows "0 \<le> pos b \<and> pos b \<le> len b
       \<and> tx_q (run cfg (map (Write_done 0) ns) s) = b\<lparr>pos := pos b + int (sum_list ns)\<rparr> # rest
       \<and> tx_total_bytes (run cfg (map (Write_done 0) ns) s) = tx_total_bytes s + sum_list ns
       \<and> (pos b + int (sum_list ns) + int n = len b \<longrightarrow>
            tx_q (run cfg (map (Write_done 0) (ns @ [n])) s) = rest
          \<and> tx_total_bytes (run cfg (map (Write_done 0) (ns @ [n])) s)
              = tx_total_bytes s + sum_list ns + n)"
proof -
  have i: "link_inv s" unfolding s_def by (rule inv_run)
  from i q have p: "0 \<le> pos b" "pos b \<le> len b" by (auto simp: link_inv_def)
  from i q w have st: "io_exc s = None" "\<not> io_stopped s"
    "dev_writes s = [\<lparr>op_req = dpos b, op_len = len b\<rparr>]"
    by (auto simp: link_inv_def)
  let ?s' = "run cfg (map (Write_done 0) ns) s"
  let ?b' = "b\<lparr>pos := pos b + int (sum_list ns)\<rparr>"
  note many = write_chunks_partial [OF st(1,2) q p(1) st(3) part, of cfg]
  have last: "tx_q (step cfg (Write_done 0 n) ?s') = rest
       \<and> tx_total_bytes (step cfg (Write_done 0 n) ?s') = tx_total_bytes ?s' + n"
    if "pos b + int (sum_list ns) + int n = len b"
  proof (rule write_chunk_final)
    show "io_exc ?s' = None" "\<not> io_stopped ?s'" "tx_q ?s' = ?b' # rest" using many by simp_all
    show "0 \<le> pos ?b'" using p(1) by simp
    show "dev_writes ?s' = [\<lparr>op_req = dpos ?b', op_len = len ?b'\<rparr>]" using many by simp
    show "pos ?b' + int n = len ?b'" using that by simp
  qed
  have "run cfg (map (Write_done 0) (ns @ [n])) s = step cfg (Write_done 0 n) ?s'"
    by (simp add: run_def)
  then show ?thesis using p many last by simp
qed

theorem partial_write_drain_witness:
  "tx_q demo_writing = \<lparr>data = [1, 2, 3], pos = 0\<rparr> #
      [\<lparr>data = [4, 5], pos = 0\<rparr>, \<lparr>data = [6, 7, 8, 9], pos = 0\<rparr>, \<lparr>data = [10], pos = 0\<rparr>]
   \<and> dev_writes demo_writing \<noteq> []
   \<and> tx_total_bytes demo_writing = 0
   \<and> tx_q (run demo_cfg [Write_done 0 1, Write_done 0 1] demo_writing) =
        \<lparr>data = [1, 2, 3], pos = 2\<rparr> #
        [\<lparr>data = [4, 5], pos = 0\<rparr>, \<lparr>data = [6, 7, 8, 9], pos = 0\<rparr>, \<lparr>data = [10], pos = 0\<rparr>]
   \<and> tx_total_bytes (run demo_cfg [Write_done 0 1, Write_done 0 1] demo_writing) = 2
   \<and> tx_q (run demo_cfg [Write_done 0 1, Write_done 0 1, Write_done 0 1] demo_writing) =
        [\<lparr>data = [4, 5], pos = 0\<rparr>, \<lparr>data = [6, 7, 8, 9], pos = 0\<rparr>, \<lparr>data = [10], pos = 0\<rparr>]
   \<and> tx_total_bytes (run demo_cfg [Write_done 0 1, Write_done 0 1, Write_done 0 1] demo_writing) = 3"
proof -
  let ?b = "\<lparr>data = [1, 2, 3::byte], pos = 0\<rparr>"
  let ?rest = "[\<lparr>data = [4, 5::byte], pos = 0\<rparr>, \<lparr>data = [6, 7, 8, 9], pos = 0\<rparr>,
                \<lparr>data = [10], pos = 0\<rparr>]"
  have q: "tx_q demo_writing = ?b # ?rest" by (simp add: demo_writing_eval)
  have w: "dev_writes demo_writing \<noteq> []" by (simp add: demo_writing_eval)
  have t: "tx_total_bytes demo_writing = 0" by (simp add: demo_writing_eval)
  have p: "pos ?b + int (sum_list [1, 1]) < len ?b" by (simp add: len_def)
  have e: "pos ?b + int (sum_list [1, 1]) + int 1 = len ?b" by (simp add: len_def)
  note d = partial_write_drain [of demo_cfg "demo_enqueue @ [Send_bytes [11], Run_posted]"
      1 240 8 ?b ?rest "[1, 1]" 1, unfolded demo_writing_run, OF q w p]
  show ?thesis using d q w t e by simp
qed


text \<open>
  C8. In every reachable state at most one write is outstanding on the device, and
  only while \<open>tx_in_progress\<close> is set. With the flag set, \<^verbatim>\<open>do_write(true)\<close> changes
  nothing; when \<^verbatim>\<open>do_write(true)\<close> does issue a write the link was idle, with no
  write outstanding; and whatever event is taken next, the handler of a completed
  write included, at most one write is outstanding afterwards.
\<close>

theorem single_write_in_flight:
  fixes cfg :: "('m, 'o) config" and evs a c k
  defines "s \<equiv> run cfg evs (MAVConnSerial_init a c k)"
  shows "length (dev_writes s) \<le> 1
       \<and> (dev_writes s \<noteq> [] \<longrightarrow> tx_in_progress s)
       \<and> (tx_in_progress s \<longrightarrow> do_write True s = s)
       \<and> (dev_writes (do_write True s) \<noteq> dev_writes s \<longrightarrow>
            \<not> tx_in_progress s \<and> dev_writes s = [])
       \<and> length (dev_writes (step cfg e s)) \<le> 1"
proof -
  have i: "link_inv s" unfolding s_def by (rule inv_run)
  have l1: "length (dev_writes s) \<le> 1" using i by (simp add: link_inv_def)
  have l2: "dev_writes s \<noteq> [] \<longrightarrow> tx_in_progress s" using i by (simp add: link_inv_def)
  have l3: "tx_in_progress s \<longrightarrow> do_write True s = s" by (simp add: do_write_def)
  have l4: "dev_writes (do_write True s) \<noteq> dev_writes s \<longrightarrow>
            \<not> tx_in_progress s \<and> dev_writes s = []"
    using l2 l3 by (cases "tx_in_progress s") auto
  have l5: "length (dev_writes (step cfg e s)) \<le> 1"
    using inv_step [OF i, of cfg e] by (simp add: link_inv_def)
  show ?thesis using l1 l2 l3 l4 l5 by (intro conjI)
qed


theorem single_write_in_flight_witness:
  "dev_writes demo_writing = [\<lparr>op_req = [1, 2, 3], op_len = 3\<rparr>]
   \<and> tx_in_progress demo_writing
   \<and> do_write True demo_writing = demo_writing
   \<and> \<not> tx_in_progress demo_full \<and> dev_writes demo_full = []
   \<and> dev_writes (do_write True demo_full) = [\<lparr>op_req = [1, 2, 3], op_len = 3\<rparr>]"
proof -
  have w: "dev_writes demo_writing = [\<lparr>op_req = [1, 2, 3], op_len = 3\<rparr>]"
    by (simp add: demo_writing_eval)
  have f: "dev_writes (do_write True demo_full) = [\<lparr>op_req = [1, 2, 3], op_len = 3\<rparr>]"
    by (simp add: demo_full_eval do_write_def nbytes_def len_def dpos_def)
  have f': "dev_writes demo_full = []"
    by (simp add: demo_full_eval)
  note a = single_write_in_flight [of demo_cfg "demo_enqueue @ [Send_bytes [11], Run_posted]" 1 240 8,
      unfolded demo_writing_run]
  note b = single_write_in_flight [of demo_cfg demo_enqueue 1 240 8, unfolded demo_full_run]
  have "tx_in_progress demo_writing" using a w by simp
  moreover have "do_write True demo_writing = demo_writing" using a calculation by blast
  moreover have "\<not> tx_in_progress demo_full \<and> dev_writes demo_full = []"
    using b f f' by simp
  ultimately show ?thesis using w f by simp
qed

subsection \<open>Claims on the read chain\<close>

text \<open>
  C9. In every reachable state the bytes handed to the parser are the bytes received
  from the device, in the same order. The handler of a successful read hands the
  filled span to \<^verbatim>\<open>parse_buffer\<close> and only then issues the next read; a completion
  that delivers \<open>bs\<close> appends exactly \<open>bs\<close> to both sequences, counts them, and leaves
  one read outstanding again.
\<close>

theorem read_delivery:
  fixes cfg :: "('m, 'o) config" and evs a c k
  defines "s \<equiv> run cfg evs (MAVConnSerial_init a c k)"
  shows "parsed s = received s
       \<and> read_handler 0 n s = (None, do_read (parse_buffer (rx_buf s) (length (rx_buf s)) n s))
       \<and> (io_exc s = None \<and> \<not> io_stopped s \<and> 0 < dev_reads s \<and> length bs \<le> length (rx_buf s) \<longrightarrow>
            received (step cfg (Read_done 0 bs) s) = received s @ bs
          \<and> parsed (step cfg (Read_done 0 bs) s) = parsed s @ bs
          \<and> rx_total_bytes (step cfg (Read_done 0 bs) s) = rx_total_bytes s + length bs
          \<and> dev_reads (step cfg (Read_done 0 bs) s) = dev_reads s)"
proof -
  have "link_inv s" unfolding s_def by (rule inv_run)
  then have "parsed s = received s" by (simp add: link_inv_def)
  then show ?thesis
    by (simp add: step_def on_read_done_def read_handler_def io_result_def do_read_def
          parse_buffer_def)
qed

theorem read_delivery_witness:
  "io_exc demo_full = None \<and> \<not> io_stopped demo_full \<and> dev_reads demo_full = 1
   \<and> received (step demo_cfg (Read_done 0 [7, 8, 9]) demo_full) = [7, 8, 9]
   \<and> parsed (step demo_cfg (Read_done 0 [7, 8, 9]) demo_full) = [7, 8, 9]
   \<and> rx_total_bytes (step demo_cfg (Read_done 0 [7, 8, 9]) demo_full) = 3
   \<and> dev_reads (step demo_cfg (Read_done 0 [7, 8, 9]) demo_full) = 1"
proof -
  have f: "io_exc demo_full = None" "\<not> io_stopped demo_full" "dev_reads demo_full = 1"
    "length (rx_buf demo_full) = 8" "received demo_full = []" "parsed demo_full = []"
    "rx_total_bytes demo_full = 0"
    by (simp_all add: demo_full_eval)
  from read_delivery [of demo_cfg demo_enqueue 1 240 8 _ "[7, 8, 9]"]
  show ?thesis using f by (simp add: demo_full_run)
qed

subsection \<open>Claims on I/O errors\<close>

text \<open>
  C4. On the open link \<open>demo_writing\<close>, with a callback registered, a read completion
  and a write completion that report error 5 are evaluated. The handler calls
  \<^verbatim>\<open>close()\<close> on the I/O thread: the device is closed and the queue cleared, but the
  I/O thread then joins itself, \<^verbatim>\<open>close()\<close> ends with the system error before it
  reaches the callback, and the error leaves the handler. The callback has not been
  invoked. The same \<^verbatim>\<open>close()\<close> called by a user thread invokes it once.
\<close>

theorem io_error_skips_callback:
  "is_open demo_writing \<and> port_closed_cb demo_writing \<and> closed_cb_calls demo_writing = 0
   \<and> \<not> is_open (step demo_cfg (Read_done 5 []) demo_writing)
   \<and> tx_q (step demo_cfg (Read_done 5 []) demo_writing) = []
   \<and> io_exc (step demo_cfg (Read_done 5 []) demo_writing) = Some System_error
   \<and> closed_cb_calls (step demo_cfg (Read_done 5 []) demo_writing) = 0
   \<and> \<not> is_open (step demo_cfg (Write_done 5 0) demo_writing)
   \<and> tx_q (step demo_cfg (Write_done 5 0) demo_writing) = []
   \<and> io_exc (step demo_cfg (Write_done 5 0) demo_writing) = Some System_error
   \<and> closed_cb_calls (step demo_cfg (Write_done 5 0) demo_writing) = 0
   \<and> closed_cb_calls (step demo_cfg Close demo_writing) = 1"
  by (simp add: demo_writing_eval link_defs)

end
